theory Spec2Isabelle
  imports Complex_Main
begin

section \<open>breaker.py: the breaker and the limiter\<close>

text \<open>
  The two exception classes declared in \<^verbatim>\<open>breaker.py\<close>: \<^verbatim>\<open>Broken\<close> ("Breaker has been
  tripped") and \<^verbatim>\<open>RateLimited\<close> ("too many concurrent requests").
\<close>

datatype breaker_error = Broken | RateLimited

subsection \<open>Breaker\<close>

text \<open>
  \<^verbatim>\<open>
  class Breaker:
      def __init__(self):      self.reset()
      def __enter__(self):
          if not self: raise Broken()
      def __exit__(self, *tb): pass
      def trigger(self):       self._status = False
      def reset(self):         self._status = True
      def __bool__(self):      return self._status
  \<close>
  The object has the single attribute \<^verbatim>\<open>_status\<close>. A method takes the object and gives
  back the object after the call, with the returned value (or the raised exception)
  where there is one.
\<close>

record breaker =
  status :: bool

definition trigger :: "breaker \<Rightarrow> breaker" where
  "trigger self = self\<lparr>status := False\<rparr>"

definition reset :: "breaker \<Rightarrow> breaker" where
  "reset self = self\<lparr>status := True\<rparr>"

definition breaker_init :: "breaker \<Rightarrow> breaker" where
  "breaker_init self = reset self"

definition breaker_bool :: "breaker \<Rightarrow> bool \<times> breaker" where
  "breaker_bool self = (status self, self)"

definition breaker_enter :: "breaker \<Rightarrow> (breaker_error + unit) \<times> breaker" where
  "breaker_enter self =
     (case breaker_bool self of
        (b, self') \<Rightarrow> if \<not> b then (Inl Broken, self') else (Inr (), self'))"

definition breaker_exit :: "breaker \<Rightarrow> unit \<times> breaker" where
  "breaker_exit self = ((), self)"

text \<open>The calls a client can make on a breaker, and a run of such calls in sequence.\<close>

datatype breaker_call = Trigger | Reset | Enter | Exit | Bool

fun breaker_step :: "breaker \<Rightarrow> breaker_call \<Rightarrow> breaker" where
  "breaker_step self Trigger = trigger self"
| "breaker_step self Reset = reset self"
| "breaker_step self Enter = snd (breaker_enter self)"
| "breaker_step self Exit = snd (breaker_exit self)"
| "breaker_step self Bool = snd (breaker_bool self)"

definition breaker_run :: "breaker \<Rightarrow> breaker_call list \<Rightarrow> breaker" where
  "breaker_run self cs = foldl breaker_step self cs"

text \<open>
  What the state must be after a run, read off the calls alone: the last \<^verbatim>\<open>trigger\<close> or
  \<^verbatim>\<open>reset\<close> decides, and the starting state stands when there is none.
\<close>

fun last_switch :: "bool \<Rightarrow> breaker_call list \<Rightarrow> bool" where
  "last_switch b [] = b"
| "last_switch b (Trigger # cs) = last_switch False cs"
| "last_switch b (Reset # cs) = last_switch True cs"
| "last_switch b (c # cs) = last_switch b cs"

subsection \<open>Limiter\<close>

text \<open>
  \<^verbatim>\<open>
  class Limiter(_Semaphore):
      def acquire(self):
          if not _Semaphore.acquire(self, False):
              raise RateLimited()
      __enter__ = acquire
  \<close>
  \<^verbatim>\<open>threading._Semaphore\<close> is the standard library's counting semaphore: a counter
  \<^verbatim>\<open>_value\<close>, set by the constructor (which refuses a negative value), decremented by a
  successful \<^verbatim>\<open>acquire\<close> and incremented by \<^verbatim>\<open>release\<close>. With \<^verbatim>\<open>blocking=False\<close> the
  call never waits: it returns \<^verbatim>\<open>False\<close> at once when the counter is zero. Each call
  runs under the semaphore's own lock, so concurrent callers are an interleaving of
  whole calls, which is what a list of calls is here.
\<close>

record semaphore =
  sem_value :: int

datatype semaphore_error = ValueError_negative_initial

definition semaphore_init :: "int \<Rightarrow> semaphore_error + semaphore" where
  "semaphore_init v =
     (if v < 0 then Inl ValueError_negative_initial else Inr \<lparr>sem_value = v\<rparr>)"

definition semaphore_acquire_nonblocking :: "semaphore \<Rightarrow> bool \<times> semaphore" where
  "semaphore_acquire_nonblocking self =
     (if sem_value self = 0 then (False, self)
      else (True, self\<lparr>sem_value := sem_value self - 1\<rparr>))"

definition release :: "semaphore \<Rightarrow> semaphore" where
  "release self = self\<lparr>sem_value := sem_value self + 1\<rparr>"

definition acquire :: "semaphore \<Rightarrow> (breaker_error + unit) \<times> semaphore" where
  "acquire self =
     (case semaphore_acquire_nonblocking self of
        (ok, self') \<Rightarrow> if \<not> ok then (Inl RateLimited, self') else (Inr (), self'))"

datatype limiter_call = Acquire | Release

text \<open>
  A run of calls on a limiter. Beside the limiter it keeps the number of permits held,
  that is, of callers that have acquired and not released: one more for each
  \<^verbatim>\<open>acquire\<close> that returned, one less for each \<^verbatim>\<open>release\<close> by a holder. A \<^verbatim>\<open>release\<close>
  with no permit held comes from no holder and leaves that number at zero; the
  semaphore counts it all the same.
\<close>

fun limiter_step :: "semaphore \<times> nat \<Rightarrow> limiter_call \<Rightarrow> semaphore \<times> nat" where
  "limiter_step (self, held) Acquire =
     (case acquire self of
        (Inl e, self') \<Rightarrow> (self', held)
      | (Inr u, self') \<Rightarrow> (self', Suc held))"
| "limiter_step (self, held) Release = (release self, held - 1)"

definition limiter_run :: "semaphore \<Rightarrow> limiter_call list \<Rightarrow> semaphore \<times> nat" where
  "limiter_run self cs = foldl limiter_step (self, 0) cs"

text \<open>
  The discipline of the guarded block (\<^verbatim>\<open>__enter__\<close> acquires, \<^verbatim>\<open>__exit__\<close> releases):
  every \<^verbatim>\<open>release\<close> of the run is made while a permit is held.
\<close>

fun releases_matched :: "semaphore \<times> nat \<Rightarrow> limiter_call list \<Rightarrow> bool" where
  "releases_matched st [] = True"
| "releases_matched st (Acquire # cs) = releases_matched (limiter_step st Acquire) cs"
| "releases_matched (self, held) (Release # cs) =
     (0 < held \<and> releases_matched (limiter_step (self, held) Release) cs)"

section \<open>retry.py: retrying and the compound exception\<close>

subsection \<open>Python classes and exception objects\<close>

text \<open>
  A class object is known here by its name, by its method resolution order
  (\<^verbatim>\<open>__mro__\<close>, which every class object stores): \<open>mro_tail\<close> is the order after the
  class itself, and by the name of its solid base: the nearest class on its chain of
  bases, itself included, that adds fields of its own to the instance (the interpreter
  finds it by walking \<^verbatim>\<open>tp_base\<close>). An object is an instance of a class when that
  class occurs in the order of the object's own class.
\<close>

datatype pyclass = PyClass (cname: string) (mro_tail: "pyclass list") (solid: string)

definition mro :: "pyclass \<Rightarrow> pyclass list" where
  "mro c = c # mro_tail c"

definition object_class :: pyclass where
  "object_class = PyClass ''object'' [] ''object''"

definition BaseException_class :: pyclass where
  "BaseException_class = PyClass ''BaseException'' [object_class] ''BaseException''"

definition Exception_class :: pyclass where
  "Exception_class = PyClass ''Exception'' (mro BaseException_class) ''BaseException''"

definition TypeError_class :: pyclass where
  "TypeError_class = PyClass ''TypeError'' (mro Exception_class) ''BaseException''"

definition ValueError_class :: pyclass where
  "ValueError_class = PyClass ''ValueError'' (mro Exception_class) ''BaseException''"

definition LookupError_class :: pyclass where
  "LookupError_class = PyClass ''LookupError'' (mro Exception_class) ''BaseException''"

definition IndexError_class :: pyclass where
  "IndexError_class = PyClass ''IndexError'' (mro LookupError_class) ''BaseException''"

text \<open>
  Two built-in exceptions whose instances have fields of their own (\<^verbatim>\<open>errno\<close>,
  \<^verbatim>\<open>filename\<close>, ... and \<^verbatim>\<open>lineno\<close>, \<^verbatim>\<open>offset\<close>, ...): each is its own solid base.
\<close>

definition OSError_class :: pyclass where
  "OSError_class = PyClass ''OSError'' (mro Exception_class) ''OSError''"

definition SyntaxError_class :: pyclass where
  "SyntaxError_class = PyClass ''SyntaxError'' (mro Exception_class) ''SyntaxError''"

text \<open>
  \<^verbatim>\<open>class CompoundException(Exception)\<close>, the class declared in \<^verbatim>\<open>retry.py\<close>; it is
  written in Python and adds no field.
\<close>

definition CompoundException_class :: pyclass where
  "CompoundException_class = PyClass ''CompoundException'' (mro Exception_class) ''BaseException''"

text \<open>
  An exception object: an ordinary instance of a class with its message, or an instance
  built by \<^verbatim>\<open>CompoundException.__init__\<close>, which stores the list \<^verbatim>\<open>_errors\<close>. The last
  field of both is \<^verbatim>\<open>__cause__\<close>, \<^verbatim>\<open>None\<close> until \<^verbatim>\<open>raise ... from ...\<close> sets it.
\<close>

datatype exc =
    Plain pyclass string "exc option"
  | Compound pyclass "exc list" "exc option"

fun class_of :: "exc \<Rightarrow> pyclass" where
  "class_of (Plain c m cause) = c"
| "class_of (Compound c es cause) = c"

definition isinstance :: "exc \<Rightarrow> pyclass \<Rightarrow> bool" where
  "isinstance e c = (c \<in> set (mro (class_of e)))"

text \<open>
  \<^verbatim>\<open>CompoundException.__iter__\<close> and \<^verbatim>\<open>__len__\<close>: over \<^verbatim>\<open>self._errors\<close>. An ordinary
  exception has neither method (\<open>None\<close>).
\<close>

fun compound_iter :: "exc \<Rightarrow> exc list option" where
  "compound_iter (Compound c es cause) = Some es"
| "compound_iter (Plain c m cause) = None"

definition compound_len :: "exc \<Rightarrow> nat option" where
  "compound_len e = map_option length (compound_iter e)"

fun cause_of :: "exc \<Rightarrow> exc option" where
  "cause_of (Compound c es cause) = cause"
| "cause_of (Plain c m cause) = cause"

fun raise_from :: "exc \<Rightarrow> exc \<Rightarrow> exc" where
  "raise_from (Compound c es cause) parent = Compound c es (Some parent)"
| "raise_from (Plain c m cause) parent = Plain c m (Some parent)"

subsection \<open>Creating a class: \<^verbatim>\<open>type(name, bases, {})\<close>\<close>

text \<open>
  The interpreter linearises the bases of a new class (C3): the order of the new class
  is the class itself followed by the merge of the orders of its bases and of the list
  of bases. The merge takes, again and again, the first head of the remaining
  sequences that occurs in the tail of none of them; when every head occurs in some
  tail there is no consistent order and \<^verbatim>\<open>type\<close> raises \<^verbatim>\<open>TypeError\<close>. The same holds when
  a base is listed twice.

  Before that the interpreter chooses the base that gives the instances their layout
  (\<^verbatim>\<open>best_base\<close>): it goes through the solid bases of the bases and keeps the most
  derived one; when two of them are unrelated, neither a subclass of the other, it
  raises \<^verbatim>\<open>TypeError\<close> (instance lay-out conflict). The new class, whose namespace is
  empty, adds no field: its solid base is the one kept. A metaclass other than
  \<^verbatim>\<open>type\<close> and a class that refuses subclasses are not modelled.
\<close>

definition in_a_tail :: "'a \<Rightarrow> 'a list list \<Rightarrow> bool" where
  "in_a_tail c seqs = list_ex (\<lambda>s. c \<in> set (tl s)) seqs"

definition drop_head :: "'a \<Rightarrow> 'a list \<Rightarrow> 'a list" where
  "drop_head c s = (if hd s = c then tl s else s)"

function c3_merge :: "'a list list \<Rightarrow> 'a list option" where
  "c3_merge seqs =
     (let rest = filter (\<lambda>s. s \<noteq> []) seqs in
      if rest = [] then Some []
      else (case find (\<lambda>c. \<not> in_a_tail c rest) (map hd rest) of
              None \<Rightarrow> None
            | Some c \<Rightarrow> map_option ((#) c) (c3_merge (map (drop_head c) rest))))"
  by pat_completeness auto
termination
proof (relation "measure (\<lambda>seqs. sum_list (map length seqs))")
  show "wf (measure (\<lambda>seqs. sum_list (map length seqs)))" by simp
next
  fix seqs :: "'a list list" and rest c
  assume rest: "rest = filter (\<lambda>s. s \<noteq> []) seqs"
    and found: "find (\<lambda>c. \<not> in_a_tail c rest) (map hd rest) = Some c"
  have weak: "sum_list (map length (map (drop_head c) ss)) \<le> sum_list (map length ss)"
    for ss :: "'a list list"
    by (induction ss) (auto simp: drop_head_def)
  have strict: "\<forall>s \<in> set ss. s \<noteq> [] \<Longrightarrow> c \<in> set (map hd ss) \<Longrightarrow>
      sum_list (map length (map (drop_head c) ss)) < sum_list (map length ss)"
    for ss :: "'a list list"
  proof (induction ss)
    case Nil
    then show ?case by simp
  next
    case (Cons s ss)
    show ?case
    proof (cases "hd s = c")
      case True
      with Cons.prems(1) have "length (drop_head c s) < length s"
        by (simp add: drop_head_def)
      with weak [of ss] show ?thesis by simp
    next
      case False
      with Cons.prems(2) have "c \<in> set (map hd ss)" by simp
      with Cons.IH Cons.prems(1)
      have "sum_list (map length (map (drop_head c) ss)) < sum_list (map length ss)"
        by simp
      moreover from False have "drop_head c s = s"
        by (simp add: drop_head_def)
      ultimately show ?thesis by simp
    qed
  qed
  have "c \<in> set (map hd rest)"
    using found by (auto simp: find_Some_iff)
  moreover have "\<forall>s \<in> set rest. s \<noteq> []"
    using rest by simp
  ultimately have "sum_list (map length (map (drop_head c) rest)) < sum_list (map length rest)"
    by (rule strict [rotated])
  moreover have "sum_list (map length rest) \<le> sum_list (map length seqs)"
    unfolding rest by (induction seqs) auto
  ultimately show "(map (drop_head c) rest, seqs) \<in> measure (\<lambda>seqs. sum_list (map length seqs))"
    by simp
qed

text \<open>The equation of \<open>c3_merge\<close> is unfolded by hand, one step at a time.\<close>

declare c3_merge.simps [simp del]

definition issubclass :: "pyclass \<Rightarrow> pyclass \<Rightarrow> bool" where
  "issubclass a b = (b \<in> set (mro a))"

definition solid_base :: "pyclass \<Rightarrow> pyclass" where
  "solid_base c =
     (case find (\<lambda>a. cname a = solid c) (mro c) of
        Some a \<Rightarrow> a
      | None \<Rightarrow> object_class)"

fun best_base :: "pyclass option \<Rightarrow> pyclass list \<Rightarrow> pyclass option" where
  "best_base winner [] = winner"
| "best_base None (b # bs) = best_base (Some (solid_base b)) bs"
| "best_base (Some winner) (b # bs) =
     (let candidate = solid_base b in
      if issubclass winner candidate then best_base (Some winner) bs
      else if issubclass candidate winner then best_base (Some candidate) bs
      else None)"

definition layout_conflict_error :: exc where
  "layout_conflict_error =
     Plain TypeError_class ''multiple bases have instance lay-out conflict'' None"

definition MRO_error :: exc where
  "MRO_error =
     Plain TypeError_class ''Cannot create a consistent method resolution order (MRO)'' None"

definition duplicate_base_error :: exc where
  "duplicate_base_error = Plain TypeError_class ''duplicate base class'' None"

definition type_new :: "string \<Rightarrow> pyclass list \<Rightarrow> exc + pyclass" where
  "type_new name bases =
     (let bases = (if bases = [] then [object_class] else bases) in
      case best_base None bases of
        None \<Rightarrow> Inl layout_conflict_error
      | Some winner \<Rightarrow>
          if \<not> distinct bases then Inl duplicate_base_error
          else (case c3_merge (map mro bases @ [bases]) of
                  None \<Rightarrow> Inl MRO_error
                | Some order \<Rightarrow> Inr (PyClass name order (cname winner))))"

subsection \<open>The functions of \<^verbatim>\<open>retry.py\<close>\<close>

text \<open>
  \<^verbatim>\<open>
  def uniq(l):
      dict = _OrderedDict.fromkeys(l)
      return list(dict.keys())
  \<close>
  The keys of an ordered dictionary are kept in the order of their first insertion;
  inserting a key that is present changes nothing.
\<close>

definition fromkeys :: "'a list \<Rightarrow> 'a list" where
  "fromkeys l = foldl (\<lambda>keys k. if k \<in> set keys then keys else keys @ [k]) [] l"

definition uniq :: "'a list \<Rightarrow> 'a list" where
  "uniq l = fromkeys l"

text \<open>
  \<^verbatim>\<open>
  def make_compound_exception(errors, *args, **kwargs):
      name = 'CompoundException'
      bases = [CompoundException] + [e.__class__ for e in errors]
      bases = uniq(bases)
      bases = tuple(bases)
      exc = type(name, bases, {})
      return exc(errors, *args, **kwargs)
  \<close>
\<close>

definition make_compound_exception :: "exc list \<Rightarrow> exc + exc" where
  "make_compound_exception errors =
     (let bases = [CompoundException_class] @ map class_of errors;
          bases = uniq bases
      in case type_new ''CompoundException'' bases of
           Inl e \<Rightarrow> Inl e
         | Inr cls \<Rightarrow> Inr (Compound cls errors None))"

text \<open>
  \<^verbatim>\<open>
  def wrapper(*args, **kwargs):
      errors = []
      for i in range(times):
          try:
              return func(*args, **kwargs)
          except Exception as err:
              log.debug(...)
              errors.append(err)
      log.debug(...)
      compound_err = make_compound_exception(errors)
      raise compound_err from errors[-1]
  \<close>
  The wrapped function is a computation on a state \<open>'s\<close> (everything it reads and
  changes): from a state it either raises (\<open>Inl\<close>) or returns (\<open>Inr\<close>), and leaves a new
  state. The loop runs at most \<open>n\<close> more times; \<open>None\<close> is the loop running out, and
  an exception that is not an instance of \<^verbatim>\<open>Exception\<close> passes through the \<^verbatim>\<open>except\<close>
  clause. The log calls are left out.
\<close>

type_synonym ('s, 'a) callable = "'s \<Rightarrow> (exc + 'a) \<times> 's"

fun retry_loop ::
  "('s, 'a) callable \<Rightarrow> nat \<Rightarrow> exc list \<Rightarrow> 's \<Rightarrow> (exc + 'a) option \<times> exc list \<times> 's" where
  "retry_loop func 0 errors s = (None, errors, s)"
| "retry_loop func (Suc n) errors s =
     (case func s of
        (Inr v, s') \<Rightarrow> (Some (Inr v), errors, s')
      | (Inl err, s') \<Rightarrow>
          if isinstance err Exception_class then retry_loop func n (errors @ [err]) s'
          else (Some (Inl err), errors, s'))"

definition list_index_error :: exc where
  "list_index_error = Plain IndexError_class ''list index out of range'' None"

definition wrapper :: "int \<Rightarrow> ('s, 'a) callable \<Rightarrow> ('s, 'a) callable" where
  "wrapper times' func s =
     (case retry_loop func (nat times') [] s of
        (Some r, errors, s') \<Rightarrow> (r, s')
      | (None, errors, s') \<Rightarrow>
          (case make_compound_exception errors of
             Inl e \<Rightarrow> (Inl e, s')
           | Inr compound_err \<Rightarrow>
               (case errors of
                  [] \<Rightarrow> (Inl list_index_error, s')
                | _ \<Rightarrow> (Inl (raise_from compound_err (last errors)), s'))))"

text \<open>\<^verbatim>\<open>retry(times)(func)\<close> with the default \<^verbatim>\<open>execute=True\<close> calls the wrapper at once.\<close>

definition retry :: "int \<Rightarrow> ('s, 'a) callable \<Rightarrow> ('s, 'a) callable" where
  "retry times' func s = wrapper times' func s"

text \<open>
  Counting the invocations: the same callable on a state that carries a counter beside
  it, one more at each call.
\<close>

definition counted :: "('s, 'a) callable \<Rightarrow> ('s \<times> nat, 'a) callable" where
  "counted func = (\<lambda>(s, n). case func s of (r, s') \<Rightarrow> (r, (s', Suc n)))"

text \<open>The state a callable leaves after \<open>n\<close> calls in a row.\<close>

fun state_after :: "('s, 'a) callable \<Rightarrow> 's \<Rightarrow> nat \<Rightarrow> 's" where
  "state_after func s 0 = s"
| "state_after func s (Suc n) = snd (func (state_after func s n))"

text \<open>The exceptions raised by \<open>n\<close> calls in a row, in the order of the calls.\<close>

fun failures :: "('s, 'a) callable \<Rightarrow> 's \<Rightarrow> nat \<Rightarrow> exc list" where
  "failures func s 0 = []"
| "failures func s (Suc n) =
     (case fst (func s) of
        Inl e \<Rightarrow> e # failures func (snd (func s)) n
      | Inr v \<Rightarrow> [])"

text \<open>
  Two callables to run the wrapper on. Their state is the number of calls made so far.
  The first raises \<^verbatim>\<open>ValueError\<close> twice and returns from the third call on; the second
  never returns: it raises \<^verbatim>\<open>LookupError\<close> at its first call and \<^verbatim>\<open>IndexError\<close>, a
  subclass of \<^verbatim>\<open>LookupError\<close>, at every later one.
\<close>

definition fails_twice :: "(nat, nat) callable" where
  "fails_twice n =
     (if n < 2 then Inl (Plain ValueError_class ''boom'' None) else Inr (10 * n), Suc n)"

definition base_then_derived :: "(nat, unit) callable" where
  "base_then_derived n =
     (if n = 0 then Inl (Plain LookupError_class ''first'' None)
      else Inl (Plain IndexError_class ''later'' None), Suc n)"

text \<open>
  Modelled from the spec: the error taxonomy names a ConfigurationError for a retry
  count that is not positive. \<^verbatim>\<open>retry.py\<close> declares no such class and never tests the
  count; the class is written here the way the exceptions of the repository are
  declared, directly below \<^verbatim>\<open>Exception\<close>, to say what the wrapper does not raise.
\<close>

definition ConfigurationError_class :: pyclass where
  "ConfigurationError_class = PyClass ''ConfigurationError'' (mro Exception_class) ''BaseException''"

section \<open>Floating point numbers\<close>

text \<open>
  The times of \<^verbatim>\<open>metrics.py\<close> and \<^verbatim>\<open>timing.py\<close> are Python floats (\<^verbatim>\<open>time.time()\<close>).
  A Python \<^verbatim>\<open>float\<close> is a binary64 number. A finite one is modelled by the rational
  number it stands for; infinities, NaN and the negative zero are left out (a time or
  a duration is none of them). An operation gives the exact
  result rounded to the nearest representable number, ties to the even significand:
  53 bits of precision, the smallest exponent of the last place being \<open>-1074\<close>.
  (An overflow to infinity cannot arise below: only numbers under 1 are multiplied,
  by 1000, and a span is subtracted from a reading of the clock.)
\<close>

type_synonym pyfloat = rat

text \<open>
  The number of halvings that bring a positive integer below 2, and the same for
  division by ten: the integer logarithms. (Integers, not naturals: the numerators
  and denominators are large, and natural numbers are evaluated in unary.)
\<close>

function floor_log2_int :: "int \<Rightarrow> int" where
  "floor_log2_int n = (if n < 2 then 0 else 1 + floor_log2_int (n div 2))"
  by pat_completeness auto
termination
  by (relation "measure nat") auto

declare floor_log2_int.simps [simp del]

function floor_log10_int :: "int \<Rightarrow> int" where
  "floor_log10_int n = (if n < 10 then 0 else 1 + floor_log10_int (n div 10))"
  by pat_completeness auto
termination
  by (relation "measure nat") auto

declare floor_log10_int.simps [simp del]

definition pow2 :: "int \<Rightarrow> rat" where
  "pow2 e = (if 0 \<le> e then 2 ^ nat e else 1 / 2 ^ nat (- e))"

definition pow10 :: "int \<Rightarrow> rat" where
  "pow10 e = (if 0 \<le> e then 10 ^ nat e else 1 / 10 ^ nat (- e))"

text \<open>The exponent \<open>e\<close> with \<open>2 ^ e \<le> x < 2 ^ (e + 1)\<close>, for a positive \<open>x\<close>.\<close>

definition floor_log2 :: "rat \<Rightarrow> int" where
  "floor_log2 x =
     (case quotient_of x of (p, q) \<Rightarrow>
        (let e = floor_log2_int p - floor_log2_int q
         in if pow2 e \<le> x then e else e - 1))"

definition round_half_even :: "rat \<Rightarrow> int" where
  "round_half_even x =
     (let f = \<lfloor>x\<rfloor>; r = x - of_int f
      in if r < 1 / 2 then f
         else if 1 / 2 < r then f + 1
         else if even f then f else f + 1)"

definition fl :: "rat \<Rightarrow> rat" where
  "fl x =
     (if x = 0 then 0
      else (let e = max (floor_log2 \<bar>x\<bar> - 52) (- 1074)
            in of_int (round_half_even (x / pow2 e)) * pow2 e))"

definition float_mul :: "pyfloat \<Rightarrow> pyfloat \<Rightarrow> pyfloat" where
  "float_mul a b = fl (a * b)"

definition float_sub :: "pyfloat \<Rightarrow> pyfloat \<Rightarrow> pyfloat" where
  "float_sub a b = fl (a - b)"

text \<open>
  \<^verbatim>\<open>round(x, 2)\<close> on a float: the decimal number with two digits after the point that
  is nearest to \<open>x\<close> (ties to the even digit), then the float nearest to that.
\<close>

definition float_round2 :: "pyfloat \<Rightarrow> pyfloat" where
  "float_round2 x = fl (of_int (round_half_even (x * 100)) / 100)"

text \<open>
  \<^verbatim>\<open>str\<close> of a float is its \<^verbatim>\<open>repr\<close>: the shortest string of decimal digits that reads
  back as the same float (of two such, the nearer one). With the digits read as a
  fraction \<open>0.d\<^sub>1d\<^sub>2\<dots> \<times> 10 ^ decpt\<close>, the string has a plain decimal point when
  \<open>-4 < decpt \<le> 16\<close> and an exponent otherwise.
\<close>

definition floor_log10 :: "rat \<Rightarrow> int" where
  "floor_log10 x =
     (case quotient_of x of (p, q) \<Rightarrow>
        (let e = floor_log10_int p - floor_log10_int q
         in if pow10 e \<le> x then e else e - 1))"

text \<open>
  The candidates with \<open>p\<close> significant digits for a positive \<open>x\<close>: the multiples of
  \<open>10 ^ k\<close> just below and just above \<open>x\<close>, the nearer first; each is given by its
  integer of digits and \<open>k\<close>.
\<close>

definition candidates :: "rat \<Rightarrow> nat \<Rightarrow> (int \<times> int) list" where
  "candidates x p =
     (let k = floor_log10 x - int p + 1;
          y = x / pow10 k;
          lo = \<lfloor>y\<rfloor>;
          hi = \<lceil>y\<rceil>;
          near = round_half_even y;
          far = (if near = lo then hi else lo)
      in [(near, k), (far, k)])"

fun shortest_from :: "rat \<Rightarrow> nat \<Rightarrow> nat \<Rightarrow> int \<times> int" where
  "shortest_from x p 0 = (case candidates x p of c # cs \<Rightarrow> c | [] \<Rightarrow> (0, 0))"
| "shortest_from x p (Suc fuel) =
     (case filter (\<lambda>(m, k). fl (of_int m * pow10 k) = x) (candidates x p) of
        c # cs \<Rightarrow> c
      | [] \<Rightarrow> shortest_from x (Suc p) fuel)"

text \<open>Seventeen significant digits always suffice for a binary64 number.\<close>

definition shortest_digits :: "rat \<Rightarrow> int \<times> int" where
  "shortest_digits x = shortest_from x 1 16"

fun strip_zeros :: "int \<times> int \<Rightarrow> nat \<Rightarrow> int \<times> int" where
  "strip_zeros (m, k) 0 = (m, k)"
| "strip_zeros (m, k) (Suc fuel) =
     (if m \<noteq> 0 \<and> m mod 10 = 0 then strip_zeros (m div 10, k + 1) fuel else (m, k))"

text \<open>The decimal digits of a non-negative integer.\<close>

function digits_acc :: "int \<Rightarrow> string \<Rightarrow> string" where
  "digits_acc n acc =
     (if n < 10 then (''0123456789'' ! nat n) # acc
      else digits_acc (n div 10) ((''0123456789'' ! nat (n mod 10)) # acc))"
  by pat_completeness auto
termination
  by (relation "measure (\<lambda>(n, acc). nat n)") auto

declare digits_acc.simps [simp del]

definition digits_of :: "int \<Rightarrow> string" where
  "digits_of n = digits_acc n []"

definition float_str_pos :: "rat \<Rightarrow> string" where
  "float_str_pos x =
     (case strip_zeros (shortest_digits x) 17 of (m, k) \<Rightarrow>
        (let ds = digits_of m;
             n = int (length ds);
             decpt = n + k
         in if decpt \<le> - 4 \<or> 16 < decpt then
              (let e = decpt - 1;
                   es = digits_of \<bar>e\<bar>;
                   es = (if length es < 2 then CHR ''0'' # es else es)
               in [hd ds] @ (if tl ds = [] then [] else CHR ''.'' # tl ds)
                  @ ''e'' @ (if e < 0 then ''-'' else ''+'') @ es)
            else if decpt \<le> 0 then ''0.'' @ replicate (nat (- decpt)) CHR ''0'' @ ds
            else if n \<le> decpt then ds @ replicate (nat (decpt - n)) CHR ''0'' @ ''.0''
            else take (nat decpt) ds @ ''.'' @ drop (nat decpt) ds))"

definition float_str :: "pyfloat \<Rightarrow> string" where
  "float_str x =
     (if x = 0 then ''0.0''
      else if x < 0 then ''-'' @ float_str_pos (- x)
      else float_str_pos x)"

section \<open>metrics.py: the sliding windows\<close>

text \<open>
  \<^verbatim>\<open>bisect.bisect_right(a, x)\<close> of the standard library, with its defaults \<^verbatim>\<open>lo=0\<close> and
  \<^verbatim>\<open>hi=len(a)\<close>:
  \<^verbatim>\<open>
  while lo < hi:
      mid = (lo + hi) // 2
      if x < a[mid]: hi = mid
      else: lo = mid + 1
  return lo
  \<close>
  The index \<open>mid\<close> is below \<open>hi\<close>, so the read is in range as long as \<open>hi\<close> is at most
  the length.
\<close>

function bisect_loop :: "'a::linorder list \<Rightarrow> 'a \<Rightarrow> nat \<Rightarrow> nat \<Rightarrow> nat" where
  "bisect_loop a x lo hi =
     (if lo < hi then
        (let mid = (lo + hi) div 2 in
         if x < a ! mid then bisect_loop a x lo mid
         else bisect_loop a x (mid + 1) hi)
      else lo)"
  by pat_completeness auto
termination
  by (relation "measure (\<lambda>(a, x, lo, hi). hi - lo)") auto

declare bisect_loop.simps [simp del]

definition bisect_right :: "'a::linorder list \<Rightarrow> 'a \<Rightarrow> nat" where
  "bisect_right a x = bisect_loop a x 0 (length a)"

text \<open>
  \<^verbatim>\<open>
  class Metrics:
      def __init__(self, traffic_span=2*MINUTES, latency_span=1*MINUTES, counters_span=10):
          ...
          self.succeeded = []
          self.failed = []
      def success(self):
          n = now()
          self.succeeded.append(n)
          i = _bisect(self.succeeded, n - self.counters_span)
          self.succeeded = self.succeeded[i:]
  \<close>
  and \<^verbatim>\<open>failure\<close> likewise on \<^verbatim>\<open>self.failed\<close>. The reading of the clock, \<^verbatim>\<open>now()\<close>, is an
  argument of the model (\<open>n\<close>).
\<close>

record metrics =
  traffic_span :: pyfloat
  latency_span :: pyfloat
  counters_span :: pyfloat
  succeeded :: "pyfloat list"
  failed :: "pyfloat list"

definition MINUTES :: pyfloat where
  "MINUTES = 60"

definition metrics_init :: "pyfloat \<Rightarrow> pyfloat \<Rightarrow> pyfloat \<Rightarrow> metrics" where
  "metrics_init traffic latency counters =
     \<lparr>traffic_span = traffic, latency_span = latency, counters_span = counters,
      succeeded = [], failed = []\<rparr>"

definition metrics_default :: metrics where
  "metrics_default = metrics_init (2 * MINUTES) (1 * MINUTES) 10"

definition success :: "pyfloat \<Rightarrow> metrics \<Rightarrow> metrics" where
  "success n self =
     (let appended = succeeded self @ [n];
          i = bisect_right appended (float_sub n (counters_span self))
      in self\<lparr>succeeded := drop i appended\<rparr>)"

definition failure :: "pyfloat \<Rightarrow> metrics \<Rightarrow> metrics" where
  "failure n self =
     (let appended = failed self @ [n];
          i = bisect_right appended (float_sub n (counters_span self))
      in self\<lparr>failed := drop i appended\<rparr>)"

text \<open>
  The two rate properties have a docstring and no body, so reading them gives \<^verbatim>\<open>None\<close>:
  \<^verbatim>\<open>
  @property
  def request_rate(self):
      """ :returns: the ammount of requests per second
          :rtype: int """
  \<close>
\<close>

definition request_rate :: "metrics \<Rightarrow> pyfloat option" where
  "request_rate self = None"

definition error_rate :: "metrics \<Rightarrow> pyfloat option" where
  "error_rate self = None"

text \<open>A run of recorded events, each with the reading of the clock at its call.\<close>

datatype metrics_call = Success | Failure

fun metrics_step :: "metrics \<Rightarrow> metrics_call \<times> pyfloat \<Rightarrow> metrics" where
  "metrics_step self (Success, n) = success n self"
| "metrics_step self (Failure, n) = failure n self"

definition metrics_run :: "metrics \<Rightarrow> (metrics_call \<times> pyfloat) list \<Rightarrow> metrics" where
  "metrics_run self evs = foldl metrics_step self evs"

text \<open>
  The two statements of the specification, in its words, to compare the code with: the
  window after a recording is the old window with the new reading, less the front
  entries with a timestamp below \<open>now - span\<close>; the rates are the numbers of entries
  divided by the traffic span.
\<close>

definition spec_window :: "pyfloat \<Rightarrow> pyfloat \<Rightarrow> pyfloat list \<Rightarrow> pyfloat list" where
  "spec_window S n w = dropWhile (\<lambda>t. t < n - S) (w @ [n])"

definition spec_request_rate :: "metrics \<Rightarrow> pyfloat" where
  "spec_request_rate self =
     (of_nat (length (succeeded self)) + of_nat (length (failed self))) / traffic_span self"

definition spec_error_rate :: "metrics \<Rightarrow> pyfloat" where
  "spec_error_rate self = of_nat (length (failed self)) / traffic_span self"


text \<open>
  The invariant of a window under a clock that does not run backwards: the timestamps
  are in ascending order and none is later than the last reading \<open>b\<close>.
\<close>

definition window_ok :: "pyfloat list \<Rightarrow> pyfloat \<Rightarrow> bool" where
  "window_ok w b = (sorted w \<and> (\<forall>t \<in> set w. t \<le> b))"


section \<open>timing.py: the timer\<close>

text \<open>
  \<^verbatim>\<open>
  class PerfTimer:
      def __init__(self, name=None, description=None):
          self.name = name
          self.description = description
          self._children = []
          self.start_time = None
          self.start_resources = None
          self.end_time = None
          self.end_resources = None
  \<close>
  A timer holds timers (its children), so it is a datatype with the attributes as
  selectors. An attribute that is \<^verbatim>\<open>None\<close> is \<open>None\<close> here. The last field is the
  attribute \<^verbatim>\<open>start_resrouces\<close>, which \<^verbatim>\<open>start\<close> sets (the constructor's
  \<^verbatim>\<open>start_resources\<close> is never assigned again); it does not exist before. The resource
  usage record of \<^verbatim>\<open>getrusage\<close> is of a type \<open>'r\<close> left open.
\<close>

datatype 'r PerfTimer =
  PerfTimer
    (name: "string option")
    (description: "string option")
    (children: "'r PerfTimer list")
    (start_time: "pyfloat option")
    (start_resources: "'r option")
    (end_time: "pyfloat option")
    (end_resources: "'r option")
    (start_resrouces: "'r option")

datatype timer_error = ValueError string

definition PerfTimer_init :: "string option \<Rightarrow> string option \<Rightarrow> 'r PerfTimer" where
  "PerfTimer_init name' description' =
     PerfTimer name' description' [] None None None None None"

text \<open>
  The truth value of an attribute in \<^verbatim>\<open>if self.start_time:\<close>, \<^verbatim>\<open>if not name:\<close> and
  \<^verbatim>\<open>if description:\<close>: \<^verbatim>\<open>None\<close> is false, and so are the number zero and the empty
  string.
\<close>

fun truthy_time :: "pyfloat option \<Rightarrow> bool" where
  "truthy_time None = False"
| "truthy_time (Some t) = (t \<noteq> 0)"

fun truthy_str :: "string option \<Rightarrow> bool" where
  "truthy_str None = False"
| "truthy_str (Some s) = (s \<noteq> [])"

text \<open>
  \<^verbatim>\<open>
  def start(self, name=None, description=None):
      if self.start_time:
          raise ValueError('PerfTimer already started')
      if not name:
          name = self.name
      self.name = name
      if description:
          self.description = description
      self.start_time = now()
      self.start_resrouces = _resource.getrusage(_resource.RUSAGE_THREAD)
      return self

  def stop(self):
      if self.end_time:
          raise ValueError('PerfTimer already terminated')
      self.end_time = now()
      self.end_resources = _resource.getrusage(_resource.RUSAGE_THREAD)
  \<close>
  The reading of the clock and the resource usage at the call are arguments (\<open>now\<close>,
  \<open>usage\<close>).
\<close>

fun start ::
  "pyfloat \<Rightarrow> 'r \<Rightarrow> string option \<Rightarrow> string option \<Rightarrow> 'r PerfTimer
     \<Rightarrow> timer_error + 'r PerfTimer" where
  "start now usage name' description' (PerfTimer nm ds ch st sr et er srr) =
     (if truthy_time st then Inl (ValueError ''PerfTimer already started'')
      else Inr (PerfTimer
                  (if \<not> truthy_str name' then nm else name')
                  (if truthy_str description' then description' else ds)
                  ch (Some now) sr et er (Some usage)))"

fun stop :: "pyfloat \<Rightarrow> 'r \<Rightarrow> 'r PerfTimer \<Rightarrow> timer_error + 'r PerfTimer" where
  "stop now usage (PerfTimer nm ds ch st sr et er srr) =
     (if truthy_time et then Inl (ValueError ''PerfTimer already terminated'')
      else Inr (PerfTimer nm ds ch st sr (Some now) (Some usage) srr))"


section \<open>timing.py: the rendering of a duration\<close>

subsection \<open>\<^verbatim>\<open>PrettyTime.__str__\<close>\<close>

text \<open>
  \<^verbatim>\<open>
  def __str__(self):
      val = self
      for unit in ['S', 'mS', 'uS', 'nS']:
          if val >= 1:
              break
          val *= 1000
      val = round(val, 2)
      return str(val) + unit
  \<close>
  The loop over the rest of the list, with the values of \<^verbatim>\<open>val\<close> and \<^verbatim>\<open>unit\<close>: at
  each unit the variable \<^verbatim>\<open>unit\<close> is bound first, then the value is tested, and only if
  the test fails is it multiplied. When the list runs out the last unit stays bound.
\<close>

fun scale_loop :: "pyfloat \<Rightarrow> string \<Rightarrow> string list \<Rightarrow> pyfloat \<times> string" where
  "scale_loop val unit [] = (val, unit)"
| "scale_loop val unit (u # us) =
     (if 1 \<le> val then (val, u) else scale_loop (float_mul val 1000) u us)"

definition PrettyTime_str :: "pyfloat \<Rightarrow> string" where
  "PrettyTime_str self =
     (case scale_loop self [] [''S'', ''mS'', ''uS'', ''nS''] of
        (val, unit) \<Rightarrow> float_str (float_round2 val) @ unit)"

text \<open>
  The rule of the specification, in its words, to compare the code with: multiply by
  1000 and step down the list of units, again and again, until the scaled value is at
  least 1 or the units are exhausted; then round to two decimals and append the suffix
  of the unit reached. A multiplication goes with a step to the next unit, so the
  value stands in the unit it is printed with, and at the last unit there is no step
  left to take.
\<close>

fun spec_scale :: "pyfloat \<Rightarrow> string \<Rightarrow> string list \<Rightarrow> pyfloat \<times> string" where
  "spec_scale val unit [] = (val, unit)"
| "spec_scale val unit (u # us) =
     (if 1 \<le> val then (val, unit) else spec_scale (float_mul val 1000) u us)"

definition spec_PrettyTime_str :: "pyfloat \<Rightarrow> string" where
  "spec_PrettyTime_str d =
     (case spec_scale d ''S'' [''mS'', ''uS'', ''nS''] of
        (val, unit) \<Rightarrow> float_str (float_round2 val) @ unit)"


section \<open>Properties of the breaker\<close>

lemma breaker_step_status:
  "status (foldl breaker_step self cs) = last_switch (status self) cs"
proof (induction cs arbitrary: self)
  case Nil
  show ?case by simp
next
  case (Cons c cs)
  show ?case
    by (cases c)
      (simp_all add: Cons.IH trigger_def reset_def breaker_enter_def breaker_exit_def
        breaker_bool_def)
qed

text \<open>
  C4. A freshly initialised breaker is closed (\<^verbatim>\<open>_status\<close> true) and entering it returns
  without effect; after \<^verbatim>\<open>trigger\<close> (the spec's trip) entering raises \<^verbatim>\<open>Broken\<close> (the spec's
  Rejected) at once; after a following \<^verbatim>\<open>reset\<close> entering is allowed again. After any
  sequence of calls on a fresh breaker, entering is allowed exactly when the state is
  closed, and the state is the one the last \<^verbatim>\<open>trigger\<close> or \<^verbatim>\<open>reset\<close> of the sequence set
  (closed when there is none): entering, leaving and the truth test leave the breaker as
  it was, and no call takes the time as an argument.
\<close>

theorem breaker_gate:
  "status (breaker_init b0)
   \<and> breaker_enter (breaker_init b0) = (Inr (), breaker_init b0)
   \<and> breaker_enter (trigger b) = (Inl Broken, trigger b)
   \<and> breaker_enter (reset (trigger b)) = (Inr (), reset (trigger b))
   \<and> (fst (breaker_enter (breaker_run (breaker_init b0) cs)) = Inr ())
       = status (breaker_run (breaker_init b0) cs)
   \<and> status (breaker_run (breaker_init b0) cs) = last_switch True cs
   \<and> breaker_step b Enter = b \<and> breaker_step b Exit = b \<and> breaker_step b Bool = b
   \<and> status (breaker_step b Trigger) = False \<and> status (breaker_step b Reset) = True"
  by (simp add: breaker_run_def breaker_step_status breaker_init_def trigger_def reset_def
      breaker_enter_def breaker_exit_def breaker_bool_def)

section \<open>Properties of the limiter\<close>

lemma limiter_step_invariant:
  "releases_matched (self, held) cs \<Longrightarrow> 0 \<le> sem_value self \<Longrightarrow>
   foldl limiter_step (self, held) cs = (self', held') \<Longrightarrow>
     sem_value self' + int held' = sem_value self + int held \<and> 0 \<le> sem_value self'"
proof (induction cs arbitrary: self held)
  case Nil
  then show ?case by simp
next
  case (Cons c cs)
  obtain s1 h1 where step: "limiter_step (self, held) c = (s1, h1)"
    by (cases "limiter_step (self, held) c")
  have one: "sem_value s1 + int h1 = sem_value self + int held \<and> 0 \<le> sem_value s1"
    using step Cons.prems(1,2)
    by (cases c)
      (auto simp: acquire_def semaphore_acquire_nonblocking_def release_def split: if_splits)
  have m: "releases_matched (s1, h1) cs"
    using Cons.prems(1) step by (cases c) auto
  have "foldl limiter_step (s1, h1) cs = (self', held')"
    using Cons.prems(3) step by simp
  from Cons.IH [OF m _ this] one show ?case by simp
qed

text \<open>
  C7 (as amended). A limiter created with capacity \<open>C \<ge> 1\<close> holds \<open>C\<close> free permits.
  After any sequence of \<^verbatim>\<open>acquire\<close> and \<^verbatim>\<open>release\<close> calls in which every \<^verbatim>\<open>release\<close> is made
  while a permit is held, the number of permits held is at most \<open>C\<close>; when it is \<open>C\<close>
  the next \<^verbatim>\<open>acquire\<close> raises \<^verbatim>\<open>RateLimited\<close> at once and leaves the limiter as it was,
  and when it is below \<open>C\<close> the next \<^verbatim>\<open>acquire\<close> returns. No call waits: each is a
  function that returns.
\<close>

theorem limiter_never_exceeds_capacity:
  assumes "1 \<le> C" and "releases_matched (\<lparr>sem_value = C\<rparr>, 0) cs"
  shows "semaphore_init C = Inr \<lparr>sem_value = C\<rparr>
     \<and> int (snd (limiter_run \<lparr>sem_value = C\<rparr> cs)) \<le> C
     \<and> (int (snd (limiter_run \<lparr>sem_value = C\<rparr> cs)) = C \<longrightarrow>
          acquire (fst (limiter_run \<lparr>sem_value = C\<rparr> cs))
            = (Inl RateLimited, fst (limiter_run \<lparr>sem_value = C\<rparr> cs)))
     \<and> (int (snd (limiter_run \<lparr>sem_value = C\<rparr> cs)) < C \<longrightarrow>
          fst (acquire (fst (limiter_run \<lparr>sem_value = C\<rparr> cs))) = Inr ())"
proof -
  obtain s' h' where run: "limiter_run \<lparr>sem_value = C\<rparr> cs = (s', h')"
    by (cases "limiter_run \<lparr>sem_value = C\<rparr> cs")
  then have "foldl limiter_step (\<lparr>sem_value = C\<rparr>, 0) cs = (s', h')"
    by (simp add: limiter_run_def)
  from limiter_step_invariant [OF assms(2) _ this] assms(1)
  have inv: "sem_value s' + int h' = C" "0 \<le> sem_value s'" by simp_all
  have 1: "semaphore_init C = Inr \<lparr>sem_value = C\<rparr>"
    using assms(1) by (simp add: semaphore_init_def)
  have 2: "int h' \<le> C" using inv by linarith
  have 3: "int h' = C \<longrightarrow> acquire s' = (Inl RateLimited, s')"
    using inv by (simp add: acquire_def semaphore_acquire_nonblocking_def)
  have 4: "int h' < C \<longrightarrow> fst (acquire s') = Inr ()"
    using inv by (auto simp: acquire_def semaphore_acquire_nonblocking_def)
  from 1 2 3 4 show ?thesis by (simp add: run)
qed

theorem limiter_never_exceeds_capacity_witness:
  "limiter_run \<lparr>sem_value = 2\<rparr> [Acquire, Release, Acquire, Acquire, Acquire]
      = (\<lparr>sem_value = 0\<rparr>, 2)
   \<and> acquire \<lparr>sem_value = 0\<rparr> = (Inl RateLimited, \<lparr>sem_value = 0\<rparr>)
   \<and> semaphore_init 2 = Inr \<lparr>sem_value = 2\<rparr>"
proof -
  have c: "(1::int) \<le> 2" by simp
  have m: "releases_matched (\<lparr>sem_value = 2\<rparr>, 0)
      [Acquire, Release, Acquire, Acquire, Acquire]"
    by (simp add: acquire_def semaphore_acquire_nonblocking_def release_def)
  have run: "limiter_run \<lparr>sem_value = 2\<rparr> [Acquire, Release, Acquire, Acquire, Acquire]
      = (\<lparr>sem_value = 0\<rparr>, 2)"
    by (simp add: limiter_run_def acquire_def semaphore_acquire_nonblocking_def release_def)
  from limiter_never_exceeds_capacity [OF c m]
  show ?thesis by (simp add: run)
qed

text \<open>
  C7 as stated fails on a sequence with a \<^verbatim>\<open>release\<close> that no \<^verbatim>\<open>acquire\<close> precedes: the
  semaphore is not bounded, so the stray \<^verbatim>\<open>release\<close> adds a permit. With capacity 1,
  after \<^verbatim>\<open>release, acquire\<close> one permit is held and \<^verbatim>\<open>acquire\<close> still returns; two
  permits are then held.
\<close>

theorem limiter_stray_release_counterexample:
  "semaphore_init 1 = Inr \<lparr>sem_value = 1\<rparr>
   \<and> limiter_run \<lparr>sem_value = 1\<rparr> [Release, Acquire, Acquire] = (\<lparr>sem_value = 0\<rparr>, 2)
   \<and> fst (acquire (fst (limiter_run \<lparr>sem_value = 1\<rparr> [Release, Acquire]))) = Inr ()
   \<and> snd (limiter_run \<lparr>sem_value = 1\<rparr> [Release, Acquire]) = 1
   \<and> (1 :: nat) < 2"
  by (simp add: semaphore_init_def limiter_run_def acquire_def
      semaphore_acquire_nonblocking_def release_def)


section \<open>Properties of retry\<close>

lemma state_after_shift:
  "state_after func s (Suc n) = state_after func (snd (func s)) n"
  by (induction n) simp_all

lemma counted_apply:
  "counted func (s, c) = (fst (func s), (snd (func s), Suc c))"
  by (simp add: counted_def split: prod.split)

lemma retry_loop_all_fail:
  assumes "\<forall>i<n. \<exists>e. fst (func (state_after func s i)) = Inl e \<and> isinstance e Exception_class"
  shows "retry_loop (counted func) n errs (s, c)
           = (None, errs @ failures func s n, (state_after func s n, c + n))
         \<and> length (failures func s n) = n"
  using assms
proof (induction n arbitrary: s errs c)
  case 0
  show ?case by simp
next
  case (Suc n)
  from Suc.prems obtain e where e: "fst (func s) = Inl e" "isinstance e Exception_class"
    by fastforce
  let ?s1 = "snd (func s)"
  have 1: "\<forall>i<n. \<exists>e. fst (func (state_after func ?s1 i)) = Inl e \<and> isinstance e Exception_class"
    using Suc.prems by (metis Suc_less_eq state_after_shift)
  from Suc.IH [OF 1, of "errs @ [e]" "Suc c"] e show ?case
    by (simp add: counted_apply state_after_shift del: state_after.simps)
qed

lemma retry_loop_success:
  assumes "\<forall>i<j. \<exists>e. fst (func (state_after func s i)) = Inl e \<and> isinstance e Exception_class"
    and "fst (func (state_after func s j)) = Inr v"
    and "j < n"
  shows "\<exists>errs'. retry_loop (counted func) n errs (s, c)
           = (Some (Inr v), errs', (state_after func s (Suc j), c + Suc j))"
  using assms
proof (induction j arbitrary: n s errs c)
  case 0
  then obtain m where n: "n = Suc m" by (cases n) auto
  from 0 show ?case by (simp add: n counted_apply)
next
  case (Suc j)
  then obtain m where n: "n = Suc m" by (cases n) auto
  from Suc.prems(1) obtain e where e: "fst (func s) = Inl e" "isinstance e Exception_class"
    by fastforce
  let ?s1 = "snd (func s)"
  have 1: "\<forall>i<j. \<exists>e. fst (func (state_after func ?s1 i)) = Inl e \<and> isinstance e Exception_class"
    using Suc.prems(1) by (metis Suc_less_eq state_after_shift)
  have 2: "fst (func (state_after func ?s1 j)) = Inr v"
    using Suc.prems(2) by (simp only: state_after_shift)
  have 3: "j < m" using Suc.prems(3) n by simp
  from Suc.IH [OF 1 2 3, of "errs @ [e]" "Suc c"]
  obtain errs' where "retry_loop (counted func) m (errs @ [e]) (?s1, Suc c)
       = (Some (Inr v), errs', (state_after func ?s1 (Suc j), Suc c + Suc j))" by blast
  then show ?case
    using e by (simp add: n counted_apply state_after_shift del: state_after.simps)
qed

text \<open>
  C2. Let \<open>1 \<le> k \<le> times\<close>. If the first \<open>k - 1\<close> calls of the operation raise (an
  instance of \<^verbatim>\<open>Exception\<close>, which is what the \<^verbatim>\<open>except\<close> clause takes) and the \<open>k\<close>-th
  returns \<open>v\<close>, then \<^verbatim>\<open>retry\<close> returns \<open>v\<close>, raises nothing, and has called the operation
  exactly \<open>k\<close> times: the counter stands at \<open>k\<close> and the state is the one \<open>k\<close> calls leave.
\<close>

theorem retry_succeeds_on_kth:
  assumes "1 \<le> k" and "int k \<le> times'"
    and "\<forall>i<k - 1. \<exists>e. fst (func (state_after func s i)) = Inl e \<and> isinstance e Exception_class"
    and "fst (func (state_after func s (k - 1))) = Inr v"
  shows "retry times' (counted func) (s, 0) = (Inr v, (state_after func s k, k))"
proof -
  have "k - 1 < nat times'" using assms(1,2) by linarith
  from retry_loop_success [OF assms(3) assms(4) this, of "[]" 0]
  obtain errs' where "retry_loop (counted func) (nat times') [] (s, 0)
           = (Some (Inr v), errs', (state_after func s (Suc (k - 1)), 0 + Suc (k - 1)))" by blast
  with assms(1) show ?thesis
    by (simp add: retry_def wrapper_def)
qed

theorem retry_succeeds_on_kth_witness:
  "retry 3 (counted fails_twice) (0, 0) = (Inr 20, (3, 3))"
proof -
  have a: "(1::nat) \<le> 3" and b: "int 3 \<le> 3" by simp_all
  have s: "state_after fails_twice 0 i = i" for i
    by (induction i) (simp_all add: fails_twice_def)
  have c: "\<forall>i<3 - 1. \<exists>e. fst (fails_twice (state_after fails_twice 0 i)) = Inl e
              \<and> isinstance e Exception_class"
    by (simp add: s fails_twice_def isinstance_def mro_def ValueError_class_def)
  have d: "fst (fails_twice (state_after fails_twice 0 (3 - 1))) = Inr 20"
    by (simp add: s fails_twice_def)
  from retry_succeeds_on_kth [OF a b c d] show ?thesis by (simp add: s)
qed


lemma make_compound_exception_Nil:
  "make_compound_exception [] =
     Inr (Compound
       (PyClass ''CompoundException'' (mro CompoundException_class) ''BaseException'')
       [] None)"
  by code_simp

text \<open>
  C3 (as amended). For a count \<open>times \<le> 0\<close> the loop body never runs, so the operation
  is not called (counter and state are unchanged); the compound exception is built
  from the empty list, and taking the last of the recorded failures raises
  \<^verbatim>\<open>IndexError\<close>. The wrapper returns no value and does not loop.
\<close>

theorem retry_nonpositive:
  "times' \<le> 0 \<Longrightarrow>
     retry times' (counted func) (s, 0) = (Inl list_index_error, (s, 0))
     \<and> isinstance list_index_error IndexError_class"
  by (simp add: retry_def wrapper_def make_compound_exception_Nil isinstance_def
      list_index_error_def mro_def)

theorem retry_nonpositive_witness:
  "retry (- 3) (counted fails_twice) (0, 0) = (Inl list_index_error, (0, 0))"
proof -
  have "(- 3 :: int) \<le> 0" by simp
  from retry_nonpositive [OF this, of fails_twice 0] show ?thesis by simp
qed

text \<open>
  C3 as stated fails: what is raised for the count 0 is the built-in \<^verbatim>\<open>IndexError\<close>,
  which is not an instance of a configuration error class.
\<close>

theorem retry_zero_not_configuration_error:
  "fst (retry 0 (counted base_then_derived) (0, 0)) = Inl list_index_error
   \<and> \<not> isinstance list_index_error ConfigurationError_class"
  by code_simp

text \<open>
  C1 at a failing input. The operation raises at every call, first \<^verbatim>\<open>LookupError\<close> and
  then its subclass \<^verbatim>\<open>IndexError\<close>. With the count 2 it is called exactly twice, but the
  class of the compound exception cannot be created from the bases
  \<^verbatim>\<open>(CompoundException, LookupError, IndexError)\<close>: what the caller gets is the
  \<^verbatim>\<open>TypeError\<close> of \<^verbatim>\<open>type\<close>, which is no \<^verbatim>\<open>CompoundException\<close> and carries no list of
  failures.
\<close>

theorem retry_exhausted_inconsistent_classes:
  "(\<forall>n. \<exists>e. fst (base_then_derived n) = Inl e \<and> isinstance e Exception_class)
   \<and> retry 2 (counted base_then_derived) (0, 0) = (Inl MRO_error, (2, 2))
   \<and> \<not> isinstance MRO_error CompoundException_class
   \<and> compound_iter MRO_error = None
   \<and> cause_of MRO_error = None"
proof -
  have "\<forall>n. \<exists>e. fst (base_then_derived n) = Inl e \<and> isinstance e Exception_class"
    by (simp add: base_then_derived_def isinstance_def mro_def LookupError_class_def
        IndexError_class_def)
  moreover have "retry 2 (counted base_then_derived) (0, 0) = (Inl MRO_error, (2, 2))"
    by code_simp
  moreover have "\<not> isinstance MRO_error CompoundException_class"
    by code_simp
  moreover have "compound_iter MRO_error = None \<and> cause_of MRO_error = None"
    by (simp add: MRO_error_def)
  ultimately show ?thesis by blast
qed

text \<open>
  What \<^verbatim>\<open>make_compound_exception\<close> gives when the class can be created: an instance of
  \<^verbatim>\<open>CompoundException\<close> and of every class that a supplied exception is an instance of,
  whose iteration is the supplied list.
\<close>

lemma fromkeys_acc:
  "set (foldl (\<lambda>keys k. if k \<in> set keys then keys else keys @ [k]) acc l) = set acc \<union> set l
   \<and> (distinct acc \<longrightarrow> distinct (foldl (\<lambda>keys k. if k \<in> set keys then keys else keys @ [k]) acc l))"
  by (induction l arbitrary: acc) auto

lemma uniq_set: "set (uniq l) = set l"
  using fromkeys_acc [of "[]" l] by (simp add: uniq_def fromkeys_def)

lemma uniq_distinct: "distinct (uniq l)"
  using fromkeys_acc [of "[]" l] by (simp add: uniq_def fromkeys_def)

lemma c3_merge_covers:
  "c3_merge seqs = Some r \<Longrightarrow> s \<in> set seqs \<Longrightarrow> set s \<subseteq> set r"
proof (induction seqs arbitrary: r s rule: c3_merge.induct)
  case (1 seqs)
  let ?rest = "filter (\<lambda>s. s \<noteq> []) seqs"
  show ?case
  proof (cases "?rest = []")
    case True
    then have "s = []" using "1.prems"(2) by (auto simp: filter_empty_conv)
    then show ?thesis by simp
  next
    case False
    with "1.prems"(1) obtain c r' where
      c: "find (\<lambda>c. \<not> in_a_tail c ?rest) (map hd ?rest) = Some c"
      and r': "c3_merge (map (drop_head c) ?rest) = Some r'" and r: "r = c # r'"
      by (subst (asm) c3_merge.simps) (auto simp: Let_def split: option.splits)
    show ?thesis
    proof (cases "s = []")
      case True
      then show ?thesis by simp
    next
      case ne: False
      with "1.prems"(2) have "drop_head c s \<in> set (map (drop_head c) ?rest)" by simp
      from "1.IH" [OF refl False c r' this] have "set (drop_head c s) \<subseteq> set r'" .
      moreover have "set s \<subseteq> insert c (set (drop_head c s))"
        using ne by (cases s) (auto simp: drop_head_def)
      ultimately show ?thesis using r by auto
    qed
  qed
qed

lemma type_new_covers:
  assumes "type_new nm bases = Inr cls" and "b \<in> set bases"
  shows "set (mro b) \<subseteq> set (mro cls)"
proof -
  from assms(2) have ne: "bases \<noteq> []" by auto
  from assms(1) ne obtain order w where o: "c3_merge (map mro bases @ [bases]) = Some order"
    and cls: "cls = PyClass nm order w"
    by (auto simp: type_new_def Let_def split: if_splits option.splits)
  have "mro b \<in> set (map mro bases @ [bases])" using assms(2) by simp
  from c3_merge_covers [OF o this] show ?thesis by (auto simp: cls mro_def)
qed

lemma make_compound_exception_ok:
  assumes "make_compound_exception errors = Inr ce"
  shows "isinstance ce CompoundException_class
     \<and> (\<forall>e \<in> set errors. isinstance ce (class_of e))
     \<and> (\<forall>e \<in> set errors. \<forall>c. isinstance e c \<longrightarrow> isinstance ce c)
     \<and> compound_iter ce = Some errors \<and> compound_len ce = Some (length errors) \<and> cause_of ce = None"
proof -
  let ?bases = "uniq ([CompoundException_class] @ map class_of errors)"
  from assms obtain cls where t: "type_new ''CompoundException'' ?bases = Inr cls"
    and ce: "ce = Compound cls errors None"
    by (auto simp: make_compound_exception_def Let_def split: sum.splits)
  have cov: "b \<in> set ?bases \<Longrightarrow> set (mro b) \<subseteq> set (mro cls)" for b
    using type_new_covers [OF t] .
  have b1: "CompoundException_class \<in> set ?bases"
    by (simp add: uniq_set)
  have b2: "e \<in> set errors \<Longrightarrow> class_of e \<in> set ?bases" for e
    by (simp add: uniq_set)
  have m: "c \<in> set (mro c)" for c by (simp add: mro_def)
  have i1: "isinstance ce CompoundException_class"
    using cov [OF b1] m [of CompoundException_class] by (auto simp: ce isinstance_def)
  have i2: "isinstance ce c" if "e \<in> set errors" "isinstance e c" for e c
    using cov [OF b2 [OF that(1)]] that(2) by (auto simp: ce isinstance_def)
  have i3: "isinstance ce (class_of e)" if "e \<in> set errors" for e
    using i2 [OF that, of "class_of e"] m by (simp add: isinstance_def)
  have i4: "compound_iter ce = Some errors \<and> compound_len ce = Some (length errors) \<and> cause_of ce = None"
    by (simp add: ce compound_len_def)
  from i1 i2 i3 i4 show ?thesis by blast
qed

text \<open>
  Where the class can be created the wrapper does what C1 says: the operation is called
  exactly \<open>times\<close> times, and the exception raised holds the failures in the order of
  the attempts, as many as attempts, with the last of them as its cause.
\<close>

lemma retry_all_fail_consistent:
  assumes "1 \<le> times'"
    and "\<forall>i<nat times'. \<exists>e. fst (func (state_after func s i)) = Inl e \<and> isinstance e Exception_class"
    and "make_compound_exception (failures func s (nat times')) = Inr ce"
  shows "retry times' (counted func) (s, 0)
           = (Inl (raise_from ce (last (failures func s (nat times')))),
              (state_after func s (nat times'), nat times'))
         \<and> compound_iter (raise_from ce (last (failures func s (nat times'))))
             = Some (failures func s (nat times'))
         \<and> length (failures func s (nat times')) = nat times'
         \<and> cause_of (raise_from ce (last (failures func s (nat times'))))
             = Some (last (failures func s (nat times')))"
proof -
  let ?fs = "failures func s (nat times')"
  from retry_loop_all_fail [OF assms(2), of "[]" 0]
  have loop: "retry_loop (counted func) (nat times') [] (s, 0)
      = (None, ?fs, (state_after func s (nat times'), nat times'))"
    and len: "length ?fs = nat times'" by simp_all
  from len assms(1) have ne: "?fs \<noteq> []" by auto
  from assms(3) obtain cls where ce: "ce = Compound cls ?fs None"
    by (auto simp: make_compound_exception_def Let_def split: sum.splits)
  show ?thesis
    using loop len ne assms(3)
    by (simp add: retry_def wrapper_def ce split: list.splits)
qed


text \<open>
  Classes with unrelated instance layouts are refused as well, whatever their order:
  \<^verbatim>\<open>OSError\<close> and \<^verbatim>\<open>SyntaxError\<close> cannot be bases of one class.
\<close>

lemma make_compound_exception_layout_conflict:
  "make_compound_exception [Plain OSError_class ''a'' None, Plain SyntaxError_class ''b'' None]
     = Inl layout_conflict_error
   \<and> make_compound_exception [Plain SyntaxError_class ''b'' None, Plain OSError_class ''a'' None]
     = Inl layout_conflict_error
   \<and> make_compound_exception
         [Plain OSError_class ''a'' None, Plain ValueError_class ''b'' None]
       = Inr (Compound
           (PyClass ''CompoundException''
              [CompoundException_class, OSError_class, ValueError_class, Exception_class,
               BaseException_class, object_class] ''OSError'')
           [Plain OSError_class ''a'' None, Plain ValueError_class ''b'' None] None)"
  by code_simp

text \<open>
  C10 at a failing input. For the two instances \<^verbatim>\<open>[Exception('a'), ValueError('b')]\<close> the
  bases are \<^verbatim>\<open>(CompoundException, Exception, ValueError)\<close>: \<^verbatim>\<open>Exception\<close> is listed
  before its own subclass, no order of the classes is consistent with that, and
  \<^verbatim>\<open>make_compound_exception\<close> raises the \<^verbatim>\<open>TypeError\<close> of \<^verbatim>\<open>type\<close> instead of returning
  a compound exception. The same two instances in the other order are accepted.
\<close>

theorem make_compound_exception_base_before_derived:
  "make_compound_exception [Plain Exception_class ''a'' None, Plain ValueError_class ''b'' None]
     = Inl MRO_error
   \<and> \<not> isinstance MRO_error CompoundException_class
   \<and> \<not> isinstance MRO_error ValueError_class
   \<and> isinstance MRO_error TypeError_class
   \<and> compound_iter MRO_error = None
   \<and> make_compound_exception
         [Plain ValueError_class ''b'' None, Plain Exception_class ''a'' None]
       = Inr (Compound
           (PyClass ''CompoundException''
              [CompoundException_class, ValueError_class, Exception_class,
               BaseException_class, object_class] ''BaseException'')
           [Plain ValueError_class ''b'' None, Plain Exception_class ''a'' None] None)"
proof -
  have "make_compound_exception [Plain Exception_class ''a'' None, Plain ValueError_class ''b'' None]
     = Inl MRO_error"
    by code_simp
  moreover have "\<not> isinstance MRO_error CompoundException_class"
    by code_simp
  moreover have "\<not> isinstance MRO_error ValueError_class"
    by code_simp
  moreover have "isinstance MRO_error TypeError_class"
    by (simp add: MRO_error_def isinstance_def mro_def)
  moreover have "compound_iter MRO_error = None"
    by (simp add: MRO_error_def)
  moreover have "make_compound_exception
         [Plain ValueError_class ''b'' None, Plain Exception_class ''a'' None]
       = Inr (Compound
           (PyClass ''CompoundException''
              [CompoundException_class, ValueError_class, Exception_class,
               BaseException_class, object_class] ''BaseException'')
           [Plain ValueError_class ''b'' None, Plain Exception_class ''a'' None] None)"
    by code_simp
  ultimately show ?thesis by blast
qed


section \<open>Properties of the metrics windows\<close>

lemma bisect_loop_spec:
  assumes "sorted a" and "lo \<le> hi" and "hi \<le> length a"
    and "\<forall>j<lo. a ! j \<le> x" and "\<forall>j. hi \<le> j \<and> j < length a \<longrightarrow> x < a ! j"
  shows "lo \<le> bisect_loop a x lo hi \<and> bisect_loop a x lo hi \<le> hi
     \<and> (\<forall>j<bisect_loop a x lo hi. a ! j \<le> x)
     \<and> (\<forall>j. bisect_loop a x lo hi \<le> j \<and> j < length a \<longrightarrow> x < a ! j)"
  using assms
proof (induction a x lo hi rule: bisect_loop.induct)
  case (1 a x lo hi)
  show ?case
  proof (cases "lo < hi")
    case False
    then have "bisect_loop a x lo hi = lo"
      by (subst bisect_loop.simps) simp
    moreover from False "1.prems"(2) have "lo = hi" by simp
    ultimately show ?thesis using "1.prems" by simp
  next
    case True
    let ?mid = "(lo + hi) div 2"
    have mid: "lo \<le> ?mid" "?mid < hi" using True by simp_all
    have unfold: "bisect_loop a x lo hi =
        (if x < a ! ?mid then bisect_loop a x lo ?mid else bisect_loop a x (?mid + 1) hi)"
      using True by (subst bisect_loop.simps) (simp add: Let_def)
    show ?thesis
    proof (cases "x < a ! ?mid")
      case lt: True
      have up: "\<forall>j. ?mid \<le> j \<and> j < length a \<longrightarrow> x < a ! j"
      proof (intro allI impI)
        fix j assume j: "?mid \<le> j \<and> j < length a"
        with "1.prems"(1) have "a ! ?mid \<le> a ! j" by (simp add: sorted_nth_mono)
        with lt show "x < a ! j" by simp
      qed
      have "?mid \<le> length a" using mid "1.prems"(3) by simp
      from "1.IH"(1) [OF True refl lt "1.prems"(1) mid(1) this "1.prems"(4) up]
      show ?thesis using lt mid by (simp add: unfold)
    next
      case ge: False
      have low: "\<forall>j<?mid + 1. a ! j \<le> x"
      proof (intro allI impI)
        fix j assume j: "j < ?mid + 1"
        have "?mid < length a" using mid "1.prems"(3) by simp
        with "1.prems"(1) j have "a ! j \<le> a ! ?mid" by (simp add: sorted_nth_mono)
        with ge show "a ! j \<le> x" by simp
      qed
      have "?mid + 1 \<le> hi" using mid by simp
      from "1.IH"(2) [OF True refl ge "1.prems"(1) this "1.prems"(3) low "1.prems"(5)]
      show ?thesis using ge mid by (simp add: unfold)
    qed
  qed
qed

lemma drop_bisect_right:
  assumes "sorted a"
  shows "drop (bisect_right a x) a = filter (\<lambda>t. x < t) a"
proof -
  let ?i = "bisect_right a x"
  have "\<forall>j<0::nat. a ! j \<le> x" and "\<forall>j. length a \<le> j \<and> j < length a \<longrightarrow> x < a ! j"
    by auto
  from bisect_loop_spec [OF assms _ _ this]
  have i: "?i \<le> length a" and low: "\<forall>j<?i. a ! j \<le> x"
    and up: "\<forall>j. ?i \<le> j \<and> j < length a \<longrightarrow> x < a ! j"
    by (simp_all add: bisect_right_def)
  have "filter (\<lambda>t. x < t) (take ?i a) = []"
    using low i by (auto simp: filter_empty_conv in_set_conv_nth not_less)
  moreover have "filter (\<lambda>t. x < t) (drop ?i a) = drop ?i a"
    using up i by (auto simp: filter_id_conv in_set_conv_nth)
  ultimately have "filter (\<lambda>t. x < t) (take ?i a @ drop ?i a) = drop ?i a"
    by (simp only: filter_append append_Nil)
  then show ?thesis by simp
qed

lemma record_window:
  assumes "window_ok w b" and "b \<le> n"
  shows "drop (bisect_right (w @ [n]) x) (w @ [n]) = filter (\<lambda>t. x < t) (w @ [n])"
    and "window_ok (drop (bisect_right (w @ [n]) x) (w @ [n])) n"
proof -
  from assms have s: "sorted (w @ [n])"
    by (auto simp: window_ok_def sorted_append)
  from drop_bisect_right [OF s]
  show eq: "drop (bisect_right (w @ [n]) x) (w @ [n]) = filter (\<lambda>t. x < t) (w @ [n])" .
  have "sorted (filter (\<lambda>t. x < t) (w @ [n]))"
    using s by (rule sorted_wrt_filter)
  moreover have "\<forall>t \<in> set (filter (\<lambda>t. x < t) (w @ [n])). t \<le> n"
    using assms by (auto simp: window_ok_def)
  ultimately show "window_ok (drop (bisect_right (w @ [n]) x) (w @ [n])) n"
    by (simp only: eq window_ok_def)
qed

lemma window_ok_mono: "window_ok w b \<Longrightarrow> b \<le> n \<Longrightarrow> window_ok w n"
  by (auto simp: window_ok_def)

lemma metrics_step_ok:
  assumes "window_ok (succeeded m) b" and "window_ok (failed m) b" and "b \<le> n"
  shows "window_ok (succeeded (metrics_step m (c, n))) n
     \<and> window_ok (failed (metrics_step m (c, n))) n
     \<and> counters_span (metrics_step m (c, n)) = counters_span m"
proof (cases c)
  case Success
  with record_window(2) [OF assms(1,3)] window_ok_mono [OF assms(2,3)]
  show ?thesis by (simp add: success_def Let_def)
next
  case Failure
  with record_window(2) [OF assms(2,3)] window_ok_mono [OF assms(1,3)]
  show ?thesis by (simp add: failure_def Let_def)
qed

lemma metrics_run_ok:
  assumes "window_ok (succeeded m) b" and "window_ok (failed m) b"
    and "sorted (b # map snd evs)"
  shows "window_ok (succeeded (metrics_run m evs)) (last (b # map snd evs))
     \<and> window_ok (failed (metrics_run m evs)) (last (b # map snd evs))
     \<and> counters_span (metrics_run m evs) = counters_span m"
  using assms unfolding metrics_run_def
proof (induction evs arbitrary: m b)
  case Nil
  then show ?case by simp
next
  case (Cons ev evs)
  obtain c n where ev: "ev = (c, n)" by (cases ev)
  from Cons.prems(3) have bn: "b \<le> n" and rest: "sorted (n # map snd evs)"
    by (simp_all add: ev)
  from metrics_step_ok [OF Cons.prems(1,2) bn, of c]
  have ok: "window_ok (succeeded (metrics_step m (c, n))) n"
    "window_ok (failed (metrics_step m (c, n))) n"
    "counters_span (metrics_step m (c, n)) = counters_span m" by simp_all
  from Cons.IH [OF ok(1,2) rest] ok(3) show ?case by (simp add: ev)
qed

text \<open>
  C5 (as amended). Take any run of \<^verbatim>\<open>success\<close> and \<^verbatim>\<open>failure\<close> calls on a fresh collector
  with counters span \<open>S\<close>, and one more call at the reading \<open>n\<close>, the readings of the
  clock never decreasing. Write \<open>n - S\<close> for the difference as the code computes it,
  \<open>float_sub n S\<close>. The window of that call becomes the old window with \<open>n\<close>
  appended, less exactly its entries with a timestamp \<open>\<le> n - S\<close>; what is cut is a
  prefix, from the index that \<^verbatim>\<open>bisect_right\<close> finds by binary search; every timestamp
  kept is \<open>> n - S\<close> (so \<open>\<ge> n - S\<close>); the other window is untouched.
\<close>

theorem window_after_recording:
  assumes "sorted (map snd evs @ [n])"
    and "m = metrics_run (metrics_init traffic latency S) evs"
  shows "succeeded (success n m) = filter (\<lambda>t. float_sub n S < t) (succeeded m @ [n])
     \<and> succeeded (success n m)
          = drop (bisect_right (succeeded m @ [n]) (float_sub n S)) (succeeded m @ [n])
     \<and> (\<forall>t \<in> set (succeeded (success n m)). float_sub n S < t)
     \<and> failed (success n m) = failed m
     \<and> failed (failure n m) = filter (\<lambda>t. float_sub n S < t) (failed m @ [n])
     \<and> failed (failure n m)
          = drop (bisect_right (failed m @ [n]) (float_sub n S)) (failed m @ [n])
     \<and> (\<forall>t \<in> set (failed (failure n m)). float_sub n S < t)
     \<and> succeeded (failure n m) = succeeded m"
proof -
  define b where "b = (if evs = [] then n else snd (hd evs))"
  have init: "window_ok (succeeded (metrics_init traffic latency S)) b"
    "window_ok (failed (metrics_init traffic latency S)) b"
    by (simp_all add: metrics_init_def window_ok_def)
  have sb: "sorted (b # map snd evs)"
    using assms(1) by (cases evs) (auto simp: b_def sorted_append)
  have ln: "last (b # map snd evs) \<le> n"
    using assms(1) by (cases evs rule: rev_cases) (auto simp: b_def sorted_append)
  from metrics_run_ok [OF init sb] assms(2)
  have ok: "window_ok (succeeded m) (last (b # map snd evs))"
    "window_ok (failed m) (last (b # map snd evs))"
    and span: "counters_span m = S"
    by (simp_all add: metrics_init_def)
  note s = record_window(1) [OF ok(1) ln, of "float_sub n S"]
  note f = record_window(1) [OF ok(2) ln, of "float_sub n S"]
  have 1: "succeeded (success n m) = drop (bisect_right (succeeded m @ [n]) (float_sub n S)) (succeeded m @ [n])"
    by (simp add: success_def Let_def span)
  have 2: "failed (failure n m) = drop (bisect_right (failed m @ [n]) (float_sub n S)) (failed m @ [n])"
    by (simp add: failure_def Let_def span)
  have 3: "failed (success n m) = failed m" "succeeded (failure n m) = succeeded m"
    by (simp_all add: success_def failure_def Let_def)
  have 4: "\<forall>t \<in> set (succeeded (success n m)). float_sub n S < t"
    unfolding 1 s by simp
  have 5: "\<forall>t \<in> set (failed (failure n m)). float_sub n S < t"
    unfolding 2 f by simp
  from 1 2 3 4 5 s f show ?thesis by simp
qed

lemma run_example:
  "metrics_run (metrics_init 120 60 10) [(Success, 0), (Failure, 3), (Success, 5)]
     = \<lparr>traffic_span = 120, latency_span = 60, counters_span = 10,
        succeeded = [0, 5], failed = [3]\<rparr>"
  by code_simp

theorem window_after_recording_witness:
  "succeeded (success 12
      (metrics_run (metrics_init 120 60 10) [(Success, 0), (Failure, 3), (Success, 5)]))
     = [5, 12]
   \<and> failed (failure 12
      (metrics_run (metrics_init 120 60 10) [(Success, 0), (Failure, 3), (Success, 5)]))
     = [3, 12]"
proof -
  have h: "sorted (map snd [(Success, 0::pyfloat), (Failure, 3), (Success, 5)] @ [12])"
    by simp
  have d: "float_sub 12 10 = 2"
    by code_simp
  from window_after_recording [OF h refl, of 120 60 10]
  show ?thesis by (simp add: run_example d)
qed

text \<open>
  C5 as stated fails in two ways. An entry recorded exactly \<open>S\<close> before the new one is
  evicted although its timestamp is not below \<open>now - S\<close>: with span 10, the entry of
  time 0 is gone after a recording at time 10. And when the clock steps back between
  two calls the window is no longer in order, the binary search misses, and an entry
  older than the span stays: 50 is kept at time 103.
\<close>

theorem window_boundary_counterexample:
  "succeeded (success 0 (metrics_init 120 60 10)) = [0]
   \<and> succeeded (success 10 (success 0 (metrics_init 120 60 10))) = [10]
   \<and> spec_window 10 10 [0] = [0, 10]
   \<and> succeeded (metrics_run (metrics_init 120 60 10)
        [(Success, 100), (Success, 101), (Success, 102), (Success, 50), (Success, 103)])
       = [100, 101, 102, 50, 103]
   \<and> (50 :: pyfloat) < float_sub 103 10"
proof -
  have "succeeded (success 0 (metrics_init 120 60 10)) = [0]"
    by code_simp
  moreover have "succeeded (success 10 (success 0 (metrics_init 120 60 10))) = [10]"
    by code_simp
  moreover have "spec_window 10 10 [0] = [0, 10]"
    by (simp add: spec_window_def)
  moreover have "succeeded (metrics_run (metrics_init 120 60 10)
        [(Success, 100), (Success, 101), (Success, 102), (Success, 50), (Success, 103)])
       = [100, 101, 102, 50, 103]"
    by code_simp
  moreover have "(50 :: pyfloat) < float_sub 103 10"
    by code_simp
  ultimately show ?thesis by simp
qed

text \<open>
  C6 at a failing input. After one success and one failure the specification's rates
  are 2 requests and 1 error over the traffic span of 120 seconds; the properties
  \<^verbatim>\<open>request_rate\<close> and \<^verbatim>\<open>error_rate\<close> give \<^verbatim>\<open>None\<close>, as they do in every state.
\<close>

theorem rates_not_computed:
  "request_rate (failure 2 (success 1 (metrics_init 120 60 10))) = None
   \<and> error_rate (failure 2 (success 1 (metrics_init 120 60 10))) = None
   \<and> spec_request_rate (failure 2 (success 1 (metrics_init 120 60 10))) = 1 / 60
   \<and> spec_error_rate (failure 2 (success 1 (metrics_init 120 60 10))) = 1 / 120"
proof -
  have m: "failure 2 (success 1 (metrics_init 120 60 10))
     = \<lparr>traffic_span = 120, latency_span = 60, counters_span = 10,
        succeeded = [1], failed = [2]\<rparr>"
    by code_simp
  show ?thesis
    by (simp add: m request_rate_def error_rate_def spec_request_rate_def spec_error_rate_def)
qed



section \<open>Properties of the timer\<close>

text \<open>
  C8 (as amended). On a timer whose recorded start time is not zero, \<^verbatim>\<open>start\<close> raises
  \<^verbatim>\<open>ValueError\<close>; on a timer whose recorded end time is not zero, \<^verbatim>\<open>stop\<close> raises
  \<^verbatim>\<open>ValueError\<close>. On a timer with no start time \<^verbatim>\<open>start\<close> records the reading of the
  clock as the start time. On a timer with no end time \<^verbatim>\<open>stop\<close> records the reading as
  the end time and changes nothing else of the span, whether the timer was started or
  not (the start time stays as it was, \<^verbatim>\<open>None\<close> included); after that, the reading not
  being zero, another \<^verbatim>\<open>stop\<close> raises.
\<close>

theorem timer_start_stop:
  "(start_time t = Some s \<and> s \<noteq> 0 \<longrightarrow>
      start now usage n d t = Inl (ValueError ''PerfTimer already started''))
   \<and> (end_time t = Some e \<and> e \<noteq> 0 \<longrightarrow>
      stop now usage t = Inl (ValueError ''PerfTimer already terminated''))
   \<and> (start_time t = None \<longrightarrow>
      (\<exists>t'. start now usage n d t = Inr t' \<and> start_time t' = Some now
            \<and> end_time t' = end_time t \<and> children t' = children t))
   \<and> (end_time t = None \<longrightarrow>
      (\<exists>t'. stop now usage t = Inr t' \<and> end_time t' = Some now
            \<and> start_time t' = start_time t \<and> children t' = children t
            \<and> name t' = name t \<and> description t' = description t
            \<and> (now \<noteq> 0 \<longrightarrow>
                 stop later usage' t' = Inl (ValueError ''PerfTimer already terminated''))))"
  by (cases t) auto

theorem timer_start_stop_witness:
  "start 1 () None None (PerfTimer_init (Some ''request'') None)
     = Inr (PerfTimer (Some ''request'') None [] (Some 1) None None None (Some ()))
   \<and> start 2 () None None (PerfTimer (Some ''request'') None [] (Some 1) None None None (Some ()))
     = Inl (ValueError ''PerfTimer already started'')
   \<and> stop 3 () (PerfTimer (Some ''request'') None [] (Some 1) None None None (Some ()))
     = Inr (PerfTimer (Some ''request'') None [] (Some 1) None (Some 3) (Some ()) (Some ()))
   \<and> stop 4 () (PerfTimer (Some ''request'') None [] (Some 1) None (Some 3) (Some ()) (Some ()))
     = Inl (ValueError ''PerfTimer already terminated'')"
proof -
  let ?t0 = "PerfTimer_init (Some ''request'') None :: unit PerfTimer"
  let ?t1 = "PerfTimer (Some ''request'') None [] (Some 1) None None None (Some ())"
  let ?t2 = "PerfTimer (Some ''request'') None [] (Some 1) None (Some 3) (Some ()) (Some ())"
  have a: "start 1 () None None ?t0 = Inr ?t1"
    by (simp add: PerfTimer_init_def)
  from timer_start_stop [where t = ?t1 and s = 1 and now = 2 and usage = "()" and n = None and d = None]
    timer_start_stop [where t = ?t1 and now = 3 and usage = "()"]
  have b: "start 2 () None None ?t1 = Inl (ValueError ''PerfTimer already started'')"
    and c: "\<exists>t'. stop 3 () ?t1 = Inr t' \<and> end_time t' = Some 3"
    by auto
  from timer_start_stop [where t = ?t2 and e = 3 and now = 4 and usage = "()"]
  have d: "stop 4 () ?t2 = Inl (ValueError ''PerfTimer already terminated'')"
    by simp
  have c': "stop 3 () ?t1 = Inr ?t2" by simp
  from a b c' d show ?thesis by blast
qed

text \<open>
  C8 as stated fails: \<^verbatim>\<open>stop\<close> on a timer that was never started raises nothing. It
  returns with the end time recorded and the start time still \<^verbatim>\<open>None\<close>.
\<close>

theorem stop_never_started_counterexample:
  "stop 5 () (PerfTimer_init (Some ''request'') None)
     = Inr (PerfTimer (Some ''request'') None [] None None (Some 5) (Some ()) None)"
  by (simp add: PerfTimer_init_def)



section \<open>Properties of the rendering of durations\<close>

lemma scale_loop_units:
  "scale_loop d [] [''S'', ''mS'', ''uS'', ''nS''] =
     (if 1 \<le> d then (d, ''S'')
      else if 1 \<le> float_mul d 1000 then (float_mul d 1000, ''mS'')
      else if 1 \<le> float_mul (float_mul d 1000) 1000
        then (float_mul (float_mul d 1000) 1000, ''uS'')
      else if 1 \<le> float_mul (float_mul (float_mul d 1000) 1000) 1000
        then (float_mul (float_mul (float_mul d 1000) 1000) 1000, ''nS'')
      else (float_mul (float_mul (float_mul (float_mul d 1000) 1000) 1000) 1000, ''nS''))"
  by simp

text \<open>
  What \<^verbatim>\<open>PrettyTime.__str__\<close> computes, for every duration: the walk down the units S,
  mS, uS, nS stops at the first unit where the value is at least 1; when the list runs
  out, the value has been multiplied a fourth time and the suffix is still nS.
\<close>

lemma PrettyTime_str_branches:
  "PrettyTime_str d =
     (if 1 \<le> d then float_str (float_round2 d) @ ''S''
      else if 1 \<le> float_mul d 1000
        then float_str (float_round2 (float_mul d 1000)) @ ''mS''
      else if 1 \<le> float_mul (float_mul d 1000) 1000
        then float_str (float_round2 (float_mul (float_mul d 1000) 1000)) @ ''uS''
      else if 1 \<le> float_mul (float_mul (float_mul d 1000) 1000) 1000
        then float_str (float_round2 (float_mul (float_mul (float_mul d 1000) 1000) 1000))
               @ ''nS''
      else float_str (float_round2
             (float_mul (float_mul (float_mul (float_mul d 1000) 1000) 1000) 1000))
             @ ''nS'')"
  by (simp only: PrettyTime_str_def scale_loop_units) simp

text \<open>
  The code follows the rule of the specification on every duration that reaches 1
  within the list of units, that is, from one nanosecond up.
\<close>

lemma PrettyTime_str_follows_rule:
  assumes "1 \<le> d \<or> 1 \<le> float_mul d 1000 \<or> 1 \<le> float_mul (float_mul d 1000) 1000
    \<or> 1 \<le> float_mul (float_mul (float_mul d 1000) 1000) 1000"
  shows "PrettyTime_str d = spec_PrettyTime_str d"
  using assms by (auto simp: PrettyTime_str_branches spec_PrettyTime_str_def)

text \<open>The examples of the docstring of \<^verbatim>\<open>PrettyTime\<close>.\<close>

lemma pretty_time_docstring:
  "PrettyTime_str 3 = ''3.0S''
   \<and> PrettyTime_str (fl (3 / 1000000)) = ''3.0uS''
   \<and> PrettyTime_str (fl (3 / 1000000000)) = ''3.0nS''"
  by code_simp

text \<open>
  C9 at a failing input. For the duration \<^verbatim>\<open>5e-10\<close>, half a nanosecond, the value is
  still below 1 at the last unit; the loop multiplies it once more with no unit left to
  step to, and the rendering is \<^verbatim>\<open>500.0nS\<close>, a thousand times the duration, where the
  rule of the claim gives \<^verbatim>\<open>0.5nS\<close>. From one nanosecond up the code does what the
  claim says: 0.003 gives \<^verbatim>\<open>3.0mS\<close>, 1.0 gives \<^verbatim>\<open>1.0S\<close> with no multiplication,
  0.0000005 gives \<^verbatim>\<open>500.0nS\<close>, and the value is rounded to two decimals, ties to the
  even digit (1.23456 gives \<^verbatim>\<open>1.23S\<close>, 1.125 gives \<^verbatim>\<open>1.12S\<close>, 0.0012356 gives
  \<^verbatim>\<open>1.24mS\<close>, 5.12345e-7 gives \<^verbatim>\<open>512.34nS\<close>). A decimal literal is the float nearest to
  it.
\<close>

theorem pretty_time_fourth_multiplication:
  "PrettyTime_str (fl (5 / 10000000000)) = ''500.0nS''
   \<and> spec_PrettyTime_str (fl (5 / 10000000000)) = ''0.5nS''
   \<and> PrettyTime_str (fl (3 / 1000)) = ''3.0mS''
   \<and> PrettyTime_str 1 = ''1.0S''
   \<and> PrettyTime_str (fl (5 / 10000000)) = ''500.0nS''
   \<and> PrettyTime_str (fl (123456 / 100000)) = ''1.23S''
   \<and> PrettyTime_str (fl (1125 / 1000)) = ''1.12S''
   \<and> PrettyTime_str (fl (12356 / 10000000)) = ''1.24mS''
   \<and> PrettyTime_str (fl (512345 / 1000000000000)) = ''512.34nS''"
proof -
  have "PrettyTime_str (fl (5 / 10000000000)) = ''500.0nS''"
    by code_simp
  moreover have "spec_PrettyTime_str (fl (5 / 10000000000)) = ''0.5nS''"
    by code_simp
  moreover have "PrettyTime_str (fl (3 / 1000)) = ''3.0mS''"
    by code_simp
  moreover have "PrettyTime_str 1 = ''1.0S''"
    by code_simp
  moreover have "PrettyTime_str (fl (5 / 10000000)) = ''500.0nS''"
    by code_simp
  moreover have "PrettyTime_str (fl (123456 / 100000)) = ''1.23S''"
    by code_simp
  moreover have "PrettyTime_str (fl (1125 / 1000)) = ''1.12S''"
    by code_simp
  moreover have "PrettyTime_str (fl (12356 / 10000000)) = ''1.24mS''"
    by code_simp
  moreover have "PrettyTime_str (fl (512345 / 1000000000000)) = ''512.34nS''"
    by code_simp
  ultimately show ?thesis by blast
qed

text \<open>Every duration below that, zero included, is printed the same way.\<close>

lemma pretty_time_zero:
  "PrettyTime_str 0 = ''0.0nS'' \<and> spec_PrettyTime_str 0 = ''0.0nS''
   \<and> PrettyTime_str (fl (1 / 10000000000)) = ''100.0nS''
   \<and> spec_PrettyTime_str (fl (1 / 10000000000)) = ''0.1nS''"
  by code_simp

end
